theory Spec2Isabelle
  imports Main "HOL-Library.Word"
begin

section \<open>Data model of job.go\<close>

text \<open>
  Go strings are byte sequences; \<open>string\<close> (a list of 8-bit \<open>char\<close>s) is used for them.
  \<open>int64\<close> is \<open>64 word\<close> (addition wraps, \<open>\<le>s\<close> is the signed comparison), \<open>int32\<close> is
  \<open>32 word\<close>. A \<open>float64\<close> is kept as its IEEE-754 binary64 bit pattern.
\<close>

type_synonym int64 = "64 word"
type_synonym int32 = "32 word"
type_synonym float64 = "64 word"

text \<open>Errors: \<open>errors.New(text)\<close> and the \<open>*strconv.NumError\<close> of the conversion functions.\<close>

datatype strconv_err = ErrSyntax | ErrRange

datatype error =
    ErrorString string
  | NumError string string strconv_err

text \<open>
  A Go call either returns its results or panics (a run-time panic aborts the process
  when nothing recovers it, and nothing in this package does).
\<close>

datatype 'a outcome = Panic string | Return 'a

record xml_Name =
  Space :: string
  Local :: string

record Task =
  Source :: string
  TaskID :: int64

record Job =
  XMLName :: xml_Name
  StateAttribute :: string
  State :: string
  JBJobNumber :: int64
  JATPriority :: float64
  JobName :: string
  JobOwner :: string
  StartTime :: string
  SubmittedTime :: string
  Slots :: int32
  Tasks :: Task

type_synonym JobList = "Job list"

section \<open>The strings and strconv functions job.go calls\<close>

text \<open>A byte lies in the range \<open>lo..hi\<close> (as in \<open>'0' <= c && c <= '9'\<close>).\<close>

definition in_range :: "char \<Rightarrow> char \<Rightarrow> char \<Rightarrow> bool" where
  "in_range lo hi c = ((of_char lo :: nat) \<le> of_char c \<and> (of_char c :: nat) \<le> of_char hi)"

text \<open>\<open>strings.Contains(s, substr)\<close>.\<close>

fun Contains :: "string \<Rightarrow> string \<Rightarrow> bool" where
  "Contains [] substr = (substr = [])"
| "Contains (c # cs) substr = (take (length substr) (c # cs) = substr \<or> Contains cs substr)"

text \<open>
  \<open>strings.Split(s, sep)\<close> for a separator of one byte, which is how job.go calls it
  (\<open>":"\<close> and \<open>"-"\<close>): the pieces between the separators, \<open>[""]\<close> for the empty string.
\<close>

fun Split :: "string \<Rightarrow> char \<Rightarrow> string list" where
  "Split [] sep = [[]]"
| "Split (c # cs) sep =
     (if c = sep then [] # Split cs sep
      else (case Split cs sep of p # ps \<Rightarrow> (c # p) # ps | [] \<Rightarrow> [[c]]))"

definition is_digit :: "char \<Rightarrow> bool" where
  "is_digit c = in_range CHR ''0'' CHR ''9'' c"

definition digit_val :: "char \<Rightarrow> nat" where
  "digit_val c = of_char c - of_char CHR ''0''"

text \<open>
  \<open>strconv.ParseUint(s, 10, bitSize)\<close>: the digit loop with its two overflow checks
  (\<open>n >= cutoff\<close> before the multiplication, \<open>n1 > maxVal\<close> after the addition; the
  unsigned wrap-around test \<open>n1 < n\<close> of the original is subsumed on unbounded naturals).
  On a range error the value returned is \<open>maxVal\<close>.
\<close>

fun ParseUint_loop :: "nat \<Rightarrow> nat \<Rightarrow> string \<Rightarrow> nat \<times> strconv_err option" where
  "ParseUint_loop maxVal n [] = (n, None)"
| "ParseUint_loop maxVal n (c # cs) =
     (if \<not> is_digit c then (0, Some ErrSyntax)
      else if n \<ge> (2 ^ 64 - 1) div 10 + 1 then (maxVal, Some ErrRange)
      else if n * 10 + digit_val c > maxVal then (maxVal, Some ErrRange)
      else ParseUint_loop maxVal (n * 10 + digit_val c) cs)"

definition ParseUint :: "string \<Rightarrow> nat \<Rightarrow> nat \<times> strconv_err option" where
  "ParseUint s bitSize =
     (if s = [] then (0, Some ErrSyntax) else ParseUint_loop (2 ^ bitSize - 1) 0 s)"

text \<open>
  \<open>strconv.ParseInt(s, 10, bitSize)\<close>: an optional sign, then \<open>ParseUint\<close>, then the
  range check against \<open>cutoff = 1 << (bitSize-1)\<close>. The result is the pair the Go function
  returns (a value and an error).
\<close>

definition ParseInt :: "string \<Rightarrow> nat \<Rightarrow> int64 \<times> error option" where
  "ParseInt s bitSize =
     (if s = [] then (0, Some (NumError ''ParseInt'' s ErrSyntax))
      else
        let neg = (hd s = CHR ''-'');
            s1 = (if hd s = CHR ''+'' \<or> hd s = CHR ''-'' then tl s else s);
            cutoff = (2 :: nat) ^ (bitSize - 1)
        in (case ParseUint s1 bitSize of
              (un, Some ErrSyntax) \<Rightarrow> (0, Some (NumError ''ParseInt'' s ErrSyntax))
            | (un, _) \<Rightarrow>
                if \<not> neg \<and> un \<ge> cutoff
                  then (word_of_nat (cutoff - 1), Some (NumError ''ParseInt'' s ErrRange))
                else if neg \<and> un > cutoff
                  then (- word_of_nat cutoff, Some (NumError ''ParseInt'' s ErrRange))
                else (if neg then - word_of_nat un else word_of_nat un, None)))"

text \<open>
  \<open>strconv.Itoa(i)\<close> for a 64-bit \<open>int\<close>: the decimal digits of the magnitude, most
  significant first, after a minus sign when the value is negative. Each digit is read
  from the digit table.
\<close>

definition digit_char :: "nat \<Rightarrow> char" where
  "digit_char d = ''0123456789'' ! d"

fun decimal :: "nat \<Rightarrow> string" where
  "decimal n = (if n < 10 then [digit_char n] else decimal (n div 10) @ [digit_char (n mod 10)])"

declare decimal.simps [simp del]

definition Itoa :: "int64 \<Rightarrow> string" where
  "Itoa i = (if i <s 0 then CHR ''-'' # decimal (nat (- sint i)) else decimal (nat (sint i)))"

section \<open>The regexp package, as far as job.go uses it\<close>

text \<open>
  The syntax tree of the patterns used here: a character class \<open>[a-b]\<close>, a literal
  character, concatenation, and the repetition \<open>{1,}\<close> (one or more, greedy).
\<close>

datatype regexp =
    CharRange char char
  | Literal char
  | Concat regexp regexp
  | Repeat1 regexp

text \<open>
  \<open>regexp.Compile\<close> on the pattern syntax that occurs in this package: a sequence of
  atoms (\<open>[a-b]\<close> or a character that is not a metacharacter), each optionally followed by
  \<open>{1,}\<close>. Any other pattern is outside this model and reported as an error.
\<close>

definition is_meta :: "char \<Rightarrow> bool" where
  "is_meta c = (c \<in> set ''.+*?()|[]{}^$'' \<or> c = CHR 0x5C)"

fun compile_atoms :: "string \<Rightarrow> regexp list option" where
  "compile_atoms [] = Some []"
| "compile_atoms (c # cs) =
     (if c = CHR ''['' then
        (case cs of
           lo # d # hi # e # rest \<Rightarrow>
             if d = CHR ''-'' \<and> e = CHR '']'' \<and> \<not> is_meta lo \<and> \<not> is_meta hi then
               (if take 4 rest = ''{1,}''
                then map_option ((#) (Repeat1 (CharRange lo hi))) (compile_atoms (drop 4 rest))
                else map_option ((#) (CharRange lo hi)) (compile_atoms rest))
             else None
         | _ \<Rightarrow> None)
      else if is_meta c then None
      else if take 4 cs = ''{1,}''
        then map_option ((#) (Repeat1 (Literal c))) (compile_atoms (drop 4 cs))
        else map_option ((#) (Literal c)) (compile_atoms cs))"

fun concat_atoms :: "regexp \<Rightarrow> regexp list \<Rightarrow> regexp" where
  "concat_atoms r [] = r"
| "concat_atoms r (x # xs) = Concat r (concat_atoms x xs)"

definition Compile :: "string \<Rightarrow> error + regexp" where
  "Compile expr =
     (case compile_atoms expr of
        Some (r # rs) \<Rightarrow> Inr (concat_atoms r rs)
      | _ \<Rightarrow> Inl (ErrorString ''error parsing regexp''))"

text \<open>
  Matching. \<open>remainders re s\<close> lists what is left of \<open>s\<close> after each way \<open>re\<close> can
  match a prefix of it, in the engine's order of preference (leftmost-first: a
  repetition tries one more iteration before it stops). An iteration that consumes
  nothing is not repeated.
\<close>

fun remainders :: "regexp \<Rightarrow> string \<Rightarrow> string list" where
  "remainders (CharRange lo hi) s =
     (case s of [] \<Rightarrow> [] | c # cs \<Rightarrow> if in_range lo hi c then [cs] else [])"
| "remainders (Literal x) s =
     (case s of [] \<Rightarrow> [] | c # cs \<Rightarrow> if c = x then [cs] else [])"
| "remainders (Concat r1 r2) s = concat (map (remainders r2) (remainders r1 s))"
| "remainders (Repeat1 r) s =
     concat (map (\<lambda>rest. (if length rest < length s then remainders (Repeat1 r) rest else [])
                          @ [rest])
                 (remainders r s))"

declare remainders.simps(4) [simp del]

text \<open>
  The leftmost match: the first position of \<open>s\<close> at which \<open>re\<close> matches, and the
  preferred match there.
\<close>

fun find_match :: "regexp \<Rightarrow> string \<Rightarrow> string option" where
  "find_match re [] =
     (case remainders re [] of rest # _ \<Rightarrow> Some [] | [] \<Rightarrow> None)"
| "find_match re (c # cs) =
     (case remainders re (c # cs) of
        rest # _ \<Rightarrow> Some (take (length (c # cs) - length rest) (c # cs))
      | [] \<Rightarrow> find_match re cs)"

definition MatchString :: "regexp \<Rightarrow> string \<Rightarrow> bool" where
  "MatchString re s = (find_match re s \<noteq> None)"

definition FindString :: "regexp \<Rightarrow> string \<Rightarrow> string" where
  "FindString re s = (case find_match re s of Some m \<Rightarrow> m | None \<Rightarrow> [])"

text \<open>The set of strings a pattern matches as a whole: the usual language of the pattern.\<close>

inductive_set plus_lang :: "string set \<Rightarrow> string set" for A :: "string set" where
  one: "u \<in> A \<Longrightarrow> u \<in> plus_lang A"
| more: "u \<in> A \<Longrightarrow> v \<in> plus_lang A \<Longrightarrow> u @ v \<in> plus_lang A"

primrec lang :: "regexp \<Rightarrow> string set" where
  "lang (CharRange lo hi) = {[c] |c. in_range lo hi c}"
| "lang (Literal x) = {[x]}"
| "lang (Concat r1 r2) = {u @ v |u v. u \<in> lang r1 \<and> v \<in> lang r2}"
| "lang (Repeat1 r) = plus_lang (lang r)"

section \<open>Range detection\<close>

definition TASKRANGEIDENTIFIERREGEX :: string where
  "TASKRANGEIDENTIFIERREGEX = ''[0-9]{1,}-[0-9]{1,}:[0-9]''"

text \<open>The syntax tree \<open>Compile\<close> gives for that pattern (lemma \<open>compile_const\<close>).\<close>

definition task_range_regexp :: regexp where
  "task_range_regexp =
     Concat (Repeat1 (CharRange CHR ''0'' CHR ''9''))
       (Concat (Literal CHR ''-'')
         (Concat (Repeat1 (CharRange CHR ''0'' CHR ''9''))
           (Concat (Literal CHR '':'') (CharRange CHR ''0'' CHR ''9''))))"

definition DoesJobContainTaskRange :: "Job \<Rightarrow> bool \<times> error option" where
  "DoesJobContainTaskRange j =
     (case Compile TASKRANGEIDENTIFIERREGEX of
        Inl err \<Rightarrow> (False, Some err)
      | Inr regex \<Rightarrow> (MatchString regex (Source (Tasks j)), None))"

text \<open>
  The pattern of the specification, \<open>\d+-\d+:\d+\<close>, and what it means for a string to
  contain a match of it.
\<close>

definition spec_range_pattern :: regexp where
  "spec_range_pattern =
     Concat (Repeat1 (CharRange CHR ''0'' CHR ''9''))
       (Concat (Literal CHR ''-'')
         (Concat (Repeat1 (CharRange CHR ''0'' CHR ''9''))
           (Concat (Literal CHR '':'') (Repeat1 (CharRange CHR ''0'' CHR ''9'')))))"

definition contains_match :: "regexp \<Rightarrow> string \<Rightarrow> bool" where
  "contains_match re s = (\<exists>u v w. s = u @ v @ w \<and> v \<in> lang re)"

section \<open>JobList.Filter\<close>

text \<open>
  The body of \<open>Filter\<close> is a \<open>range\<close> loop over the receiver that appends every element
  accepted by the predicate to a fresh slice \<open>jobs\<close>. The loop only reads the receiver.
\<close>

fun Filter_loop :: "(Job \<Rightarrow> bool) \<Rightarrow> JobList \<Rightarrow> JobList \<Rightarrow> JobList" where
  "Filter_loop filter_fn [] jobs = jobs"
| "Filter_loop filter_fn (v # rest) jobs =
     Filter_loop filter_fn rest (if filter_fn v then jobs @ [v] else jobs)"

definition Filter :: "JobList \<Rightarrow> (Job \<Rightarrow> bool) \<Rightarrow> JobList" where
  "Filter jl filter_fn = Filter_loop filter_fn jl []"

definition IsJobRunning :: "Job \<Rightarrow> int" where
  "IsJobRunning job = (if State job = ''r'' then 1 else 0)"

section \<open>Task: UnmarshalXML and MarshalXML\<close>

text \<open>
  \<open>UnmarshalXML\<close> receives the element's text \<open>v\<close> (what \<open>d.DecodeElement\<close> stored)
  and updates the receiver \<open>t\<close>; the result is the updated Task and the error returned.
  \<open>Source\<close> is assigned before the parse, so it is set even when the parse fails.
\<close>

definition UnmarshalXML :: "Task \<Rightarrow> string \<Rightarrow> Task \<times> error option" where
  "UnmarshalXML t v =
     (let t1 = t\<lparr>Source := v\<rparr> in
      if \<not> Contains (Source t1) '':'' then
        (case ParseInt (Source t1) 64 of
           (parsed, Some err) \<Rightarrow> (t1, Some err)
         | (parsed, None) \<Rightarrow> (t1\<lparr>TaskID := parsed\<rparr>, None))
      else (t1, None))"

text \<open>
  \<open>MarshalXML\<close>: the text handed to \<open>e.EncodeElement\<close>, \<open>None\<close> when the value
  encoded is \<open>nil\<close> (nothing is emitted), and the error returned (always \<open>nil\<close>).
  \<open>int\<close> is taken as 64 bits wide.
\<close>

definition MarshalXML :: "Task \<Rightarrow> string option \<times> error option" where
  "MarshalXML t =
     (if Contains (Source t) '':'' then (Some (Source t), None)
      else if TaskID t = 0 then (None, None)
      else (Some (Itoa (TaskID t)), None))"

text \<open>
  The decimal form of a non-zero integer as \<open>Itoa\<close> writes it: an optional minus sign,
  then digits the first of which is not \<open>0\<close> (no plus sign, no leading zero).
\<close>

definition canonical_decimal :: "string \<Rightarrow> bool" where
  "canonical_decimal s =
     (let ds = (if s \<noteq> [] \<and> hd s = CHR ''-'' then tl s else s)
      in ds \<noteq> [] \<and> list_all is_digit ds \<and> hd ds \<noteq> CHR ''0'')"

section \<open>ExtrapolateTasksToJobs\<close>

text \<open>
  The expansion loop \<open>for i := beginInt; i <= endInt; i = i + intrementor\<close>, with
  the list \<open>jl\<close> built so far. The comparison is signed and the addition wraps, as
  \<open>int64\<close> does; nothing bounds the number of iterations, so the loop is a partial
  function: \<open>None\<close> stands for a loop that never exits.
\<close>

partial_function (option) Extrapolate_loop ::
  "Job \<Rightarrow> int64 \<Rightarrow> int64 \<Rightarrow> int64 \<Rightarrow> JobList \<Rightarrow> JobList option" where
  "Extrapolate_loop original endInt intrementor i jl =
     (if i \<le>s endInt
      then Extrapolate_loop original endInt intrementor (i + intrementor)
             (jl @ [original\<lparr>Tasks := (Tasks original)\<lparr>TaskID := i\<rparr>\<rparr>])
      else Some jl)"

text \<open>
  The function returns a list and an error, may panic on an index out of range
  (\<open>pieces[1]\<close>, \<open>rangePieces[1]\<close>), and may fail to return at all.
\<close>

definition ExtrapolateTasksToJobs :: "Job \<Rightarrow> (JobList \<times> error option) outcome option" where
  "ExtrapolateTasksToJobs original =
     (case DoesJobContainTaskRange original of
        (ok, Some err) \<Rightarrow> Some (Return ([], Some err))
      | (ok, None) \<Rightarrow>
          if \<not> ok then
            Some (Return ([], Some (ErrorString
              ''The provided job does not actually indicate a range of tasks'')))
          else
            (case Compile TASKRANGEIDENTIFIERREGEX of
               Inl err \<Rightarrow> Some (Return ([], Some err))
             | Inr r \<Rightarrow>
                 let identifier = FindString r (Source (Tasks original));
                     pieces = Split identifier CHR '':''
                 in if length pieces < 2 then Some (Panic ''index out of range'')
                 else
                   let rangeComponent = pieces ! 0;
                       incrementor = pieces ! 1;
                       rangePieces = Split rangeComponent CHR ''-''
                   in if length rangePieces < 2 then Some (Panic ''index out of range'')
                   else
                     let begin = rangePieces ! 0;
                         end = rangePieces ! 1
                     in (case ParseInt incrementor 64 of
                           (intrementor, Some err) \<Rightarrow> Some (Return ([], Some err))
                         | (intrementor, None) \<Rightarrow>
                        (case ParseInt begin 64 of
                           (beginInt, Some err) \<Rightarrow> Some (Return ([], Some err))
                         | (beginInt, None) \<Rightarrow>
                        (case ParseInt end 64 of
                           (endInt, Some err) \<Rightarrow> Some (Return ([], Some err))
                         | (endInt, None) \<Rightarrow>
                             map_option (\<lambda>jl. Return (jl, None))
                               (Extrapolate_loop original endInt intrementor beginInt []))))))"

text \<open>
  A job as decoded from a scheduler report, with the given text in its \<open>tasks\<close> field;
  the concrete instances below are stated on it.
\<close>

definition pending_job :: "string \<Rightarrow> Job" where
  "pending_job tasks =
     \<lparr>XMLName = \<lparr>Space = [], Local = ''job_list''\<rparr>, StateAttribute = ''pending'',
      State = ''qw'', JBJobNumber = 4711, JATPriority = 0, JobName = ''sim'',
      JobOwner = ''alice'', StartTime = [], SubmittedTime = ''2020-01-01T10:00:00'',
      Slots = 1, Tasks = \<lparr>Source = tasks, TaskID = 0\<rparr>\<rparr>"

text \<open>
  The task ids the specification lists for a range: \<open>start\<close>, \<open>start + step\<close>, ... as
  long as the value does not exceed \<open>end\<close>, on unbounded integers.
\<close>

function range_ids :: "int \<Rightarrow> int \<Rightarrow> int \<Rightarrow> int list" where
  "range_ids start end step =
     (if 0 < step \<and> start \<le> end then start # range_ids (start + step) end step else [])"
  by pat_completeness auto
termination
  by (relation "measure (\<lambda>(start, end, step). nat (end - start + 1))") auto

declare range_ids.simps [simp del]

definition with_task_id :: "Job \<Rightarrow> int64 \<Rightarrow> Job" where
  "with_task_id original i = original\<lparr>Tasks := (Tasks original)\<lparr>TaskID := i\<rparr>\<rparr>"

section \<open>float64 arithmetic\<close>

text \<open>
  The three fields of a binary64 bit pattern, and the value it stands for:
  \<open>Finite s m e\<close> is \<open>(-1)^s * m * 2^e\<close>.
\<close>

definition f64_sign :: "float64 \<Rightarrow> bool" where
  "f64_sign x = (unat x div 2 ^ 63 = 1)"

definition f64_exponent :: "float64 \<Rightarrow> nat" where
  "f64_exponent x = (unat x div 2 ^ 52) mod 2 ^ 11"

definition f64_fraction :: "float64 \<Rightarrow> nat" where
  "f64_fraction x = unat x mod 2 ^ 52"

datatype f64_value = NaN | Infinite bool | Finite bool nat int

definition f64_decode :: "float64 \<Rightarrow> f64_value" where
  "f64_decode x =
     (if f64_exponent x = 2047 then (if f64_fraction x = 0 then Infinite (f64_sign x) else NaN)
      else if f64_exponent x = 0 then Finite (f64_sign x) (f64_fraction x) (- 1074)
      else Finite (f64_sign x) (2 ^ 52 + f64_fraction x) (int (f64_exponent x) - 1075))"

definition f64_pack :: "bool \<Rightarrow> nat \<Rightarrow> nat \<Rightarrow> float64" where
  "f64_pack s E F = word_of_nat ((if s then 2 ^ 63 else 0) + E * 2 ^ 52 + F)"

definition f64_nan :: float64 where
  "f64_nan = f64_pack False 2047 (2 ^ 51)"

fun bit_length :: "nat \<Rightarrow> nat" where
  "bit_length n = (if n = 0 then 0 else Suc (bit_length (n div 2)))"

declare bit_length.simps [simp del]

text \<open>
  Rounding to nearest, ties to even: the binary64 nearest to \<open>(-1)^s * m * 2^e\<close>.
  \<open>k\<close> low bits of \<open>m\<close> are dropped so that 53 bits remain, or fewer when the exponent
  would fall below that of the subnormal numbers; a result beyond the largest finite
  number is an infinity.
\<close>

definition f64_round :: "bool \<Rightarrow> nat \<Rightarrow> int \<Rightarrow> float64" where
  "f64_round s m e =
     (if m = 0 then f64_pack s 0 0
      else
        let k = max (int (bit_length m) - 53) (- 1074 - e);
            q = (if k \<le> 0 then m * 2 ^ nat (- k) else m div 2 ^ nat k);
            r = (if k \<le> 0 then 0 else m mod 2 ^ nat k);
            half = (if k \<le> 0 then 1 else 2 ^ (nat k - 1));
            q1 = (if 0 < k \<and> (half < r \<or> (r = half \<and> odd q)) then q + 1 else q);
            e1 = e + k
        in if q1 < 2 ^ 52 then f64_pack s 0 q1
           else
             let q2 = (if q1 = 2 ^ 53 then 2 ^ 52 else q1);
                 e2 = (if q1 = 2 ^ 53 then e1 + 1 else e1)
             in if 2047 \<le> e2 + 1075 then f64_pack s 2047 0
                else f64_pack s (nat (e2 + 1075)) (q2 - 2 ^ 52))"

text \<open>
  The product of two float64 values (IEEE-754, rounded to nearest even). Which NaN an
  invalid product gives is not tracked: every NaN result is \<open>f64_nan\<close>.
\<close>

definition f64_mul :: "float64 \<Rightarrow> float64 \<Rightarrow> float64" where
  "f64_mul x y =
     (case (f64_decode x, f64_decode y) of
        (NaN, _) \<Rightarrow> f64_nan
      | (_, NaN) \<Rightarrow> f64_nan
      | (Infinite s, Infinite t) \<Rightarrow> f64_pack (s \<noteq> t) 2047 0
      | (Infinite s, Finite t n f) \<Rightarrow> if n = 0 then f64_nan else f64_pack (s \<noteq> t) 2047 0
      | (Finite s m e, Infinite t) \<Rightarrow> if m = 0 then f64_nan else f64_pack (s \<noteq> t) 2047 0
      | (Finite s m e, Finite t n f) \<Rightarrow> f64_round (s \<noteq> t) (m * n) (e + f))"

text \<open>An integer constant converted to float64, as in \<open>sv.Size * (1000 * 1000)\<close>.\<close>

definition f64_const :: "nat \<Rightarrow> float64" where
  "f64_const n = f64_round False n 0"

text \<open>
  The conversion \<open>int64(f)\<close>: the value truncated towards zero. Go leaves the result
  implementation-dependent when the value does not fit (also for an infinity and a
  NaN); \<open>unrepresentable\<close> stands for what the platform gives then.
\<close>

definition f64_to_int64 :: "(float64 \<Rightarrow> int64) \<Rightarrow> float64 \<Rightarrow> int64" where
  "f64_to_int64 unrepresentable x =
     (case f64_decode x of
        Finite s m e \<Rightarrow>
          let t = (if 0 \<le> e then int m * 2 ^ nat e else int m div 2 ^ nat (- e));
              v = (if s then - t else t)
          in if - (2 ^ 63) \<le> v \<and> v < 2 ^ 63 then word_of_int v else unrepresentable x
      | _ \<Rightarrow> unrepresentable x)"

text \<open>
  The binary64 nearest to the rational \<open>(-1)^s * p / q\<close>: the quotient is computed
  with more than 53 significant bits and a sticky bit for a non-zero remainder, then
  rounded.
\<close>

definition f64_nearest :: "bool \<Rightarrow> nat \<Rightarrow> nat \<Rightarrow> float64" where
  "f64_nearest s p q =
     (if p = 0 then f64_pack s 0 0
      else
        let k = nat (max 0 (56 + int (bit_length q) - int (bit_length p)));
            n = p * 2 ^ k
        in f64_round s (2 * (n div q) + (if n mod q = 0 then 0 else 1)) (- int k - 1))"

text \<open>The number a string of decimal digits denotes, continuing from \<open>n\<close>.\<close>

definition dec_val :: "nat \<Rightarrow> string \<Rightarrow> nat" where
  "dec_val n cs = foldl (\<lambda>n c. n * 10 + digit_val c) n cs"

text \<open>
  \<open>strconv.ParseFloat(s, 64)\<close>. For a plain decimal numeral (an optional sign, digits
  with at most one point among them, at least one digit) the result is the nearest
  float64, or a range error when that is an infinity. The other forms the library
  accepts or rejects (exponents, hexadecimal, underscores, infinities, NaN, malformed
  text) are left to the parameter \<open>other\<close>.
\<close>

definition plain_decimal :: "string \<Rightarrow> (bool \<times> nat \<times> nat) option" where
  "plain_decimal s =
     (let neg = (s \<noteq> [] \<and> hd s = CHR ''-'');
          body = (if s \<noteq> [] \<and> (hd s = CHR ''+'' \<or> hd s = CHR ''-'') then tl s else s);
          ip = takeWhile is_digit body;
          rest = dropWhile is_digit body
      in if rest = [] then (if ip = [] then None else Some (neg, dec_val 0 ip, 1))
         else if hd rest = CHR ''.'' \<and> list_all is_digit (tl rest) \<and> (ip \<noteq> [] \<or> tl rest \<noteq> [])
           then Some (neg, dec_val 0 (ip @ tl rest), 10 ^ length (tl rest))
         else None)"

definition ParseFloat :: "(string \<Rightarrow> error + float64) \<Rightarrow> string \<Rightarrow> error + float64" where
  "ParseFloat other s =
     (case plain_decimal s of
        Some (neg, p, q) \<Rightarrow>
          (let f = f64_nearest neg p q
           in if f64_exponent f = 2047 then Inl (NumError ''ParseFloat'' s ErrRange) else Inr f)
      | None \<Rightarrow> other s)"

section \<open>Resources and storage values\<close>

record Resource =
  XMLName :: xml_Name
  Name :: string
  Type :: string
  Value :: string

type_synonym ResourceList = "Resource list"

record StorageValue =
  Size :: float64
  Scale :: string
  Bytes :: int64

text \<open>The zero values \<open>Resource{}\<close> and \<open>StorageValue{}\<close>.\<close>

definition Resource_zero :: Resource where
  "Resource_zero = \<lparr>XMLName = \<lparr>Space = [], Local = []\<rparr>, Name = [], Type = [], Value = []\<rparr>"

definition StorageValue_zero :: StorageValue where
  "StorageValue_zero = \<lparr>Size = 0, Scale = [], Bytes = 0\<rparr>"

text \<open>
  \<open>string(b)\<close> for a byte \<open>b\<close>: the UTF-8 encoding of the code point \<open>b\<close>, one byte
  below 128 and two bytes from 128 on.
\<close>

definition string_of_byte :: "char \<Rightarrow> string" where
  "string_of_byte b =
     (if (of_char b :: nat) < 128 then [b]
      else [char_of (192 + (of_char b :: nat) div 64), char_of (128 + (of_char b :: nat) mod 64)])"

text \<open>
  \<open>newStorageValue\<close>. \<open>input[len(input)-1]\<close> is an index expression: on the empty
  string the index is \<open>-1\<close> and the call panics.
\<close>

definition newStorageValue ::
  "(string \<Rightarrow> error + float64) \<Rightarrow> (float64 \<Rightarrow> int64) \<Rightarrow> string
     \<Rightarrow> (StorageValue \<times> error option) outcome" where
  "newStorageValue other unrepresentable input =
     (if input = [] then Panic ''index out of range [-1]''
      else
        let scale = string_of_byte (last input);
            remainingBytes = butlast input
        in (case ParseFloat other remainingBytes of
              Inl err \<Rightarrow> Return (StorageValue_zero, Some err)
            | Inr remainingSize \<Rightarrow>
                Return (\<lparr>Size = remainingSize, Scale = scale,
                         Bytes =
                           (if scale = ''G'' then
                              f64_to_int64 unrepresentable
                                (f64_mul remainingSize (f64_const (1000 * 1000 * 1000)))
                            else if scale = ''M'' then
                              f64_to_int64 unrepresentable
                                (f64_mul remainingSize (f64_const (1000 * 1000)))
                            else if scale = ''T'' then
                              f64_to_int64 unrepresentable
                                (f64_mul remainingSize (f64_const (1000 * 1000 * 1000 * 1000)))
                            else 0)\<rparr>, None)))"

text \<open>\<open>locateKey\<close>: the first resource of the list with the name asked for.\<close>

fun locateKey :: "ResourceList \<Rightarrow> string \<Rightarrow> Resource \<times> error option" where
  "locateKey [] key = (Resource_zero, Some (ErrorString ''Could not located the requested key''))"
| "locateKey (c # r) key = (if Name c = key then (c, None) else locateKey r key)"

definition Load ::
  "(string \<Rightarrow> error + float64) \<Rightarrow> ResourceList \<Rightarrow> string \<Rightarrow> float64 \<times> error option" where
  "Load other r window =
     (case locateKey r (''load_'' @ window) of
        (resource, Some err) \<Rightarrow> (0, Some err)
      | (resource, None) \<Rightarrow>
          (case ParseFloat other (Value resource) of
             Inl err \<Rightarrow> (0, Some err)
           | Inr resconv \<Rightarrow> (resconv, None)))"

definition NumberofProcessors :: "ResourceList \<Rightarrow> int32 \<times> error option" where
  "NumberofProcessors r =
     (case locateKey r ''num_proc'' of
        (resource, Some err) \<Rightarrow> (0, Some err)
      | (resource, None) \<Rightarrow>
          (case ParseInt (Value resource) 32 of
             (resconv, Some err) \<Rightarrow>
               (0, Some (ErrorString ''Failure to convert to an integer from string''))
           | (resconv, None) \<Rightarrow> (ucast resconv, None)))"

definition getStorageValueFromList ::
  "(string \<Rightarrow> error + float64) \<Rightarrow> (float64 \<Rightarrow> int64) \<Rightarrow> ResourceList \<Rightarrow> string
     \<Rightarrow> (StorageValue \<times> error option) outcome" where
  "getStorageValueFromList other unrepresentable r KeyName =
     (case locateKey r KeyName of
        (resource, Some err) \<Rightarrow> Return (StorageValue_zero, Some err)
      | (resource, None) \<Rightarrow> newStorageValue other unrepresentable (Value resource))"

definition FreeMemory where
  "FreeMemory other unrepresentable r = getStorageValueFromList other unrepresentable r ''mem_free''"

definition FreeSwap where
  "FreeSwap other unrepresentable r = getStorageValueFromList other unrepresentable r ''swap_free''"

definition FreeVirtualMemory where
  "FreeVirtualMemory other unrepresentable r =
     getStorageValueFromList other unrepresentable r ''virtual_free''"

definition TotalMemory where
  "TotalMemory other unrepresentable r = getStorageValueFromList other unrepresentable r ''mem_total''"

definition TotalSwap where
  "TotalSwap other unrepresentable r = getStorageValueFromList other unrepresentable r ''swap_total''"

definition TotalVirtual where
  "TotalVirtual other unrepresentable r =
     getStorageValueFromList other unrepresentable r ''virtual_total''"

definition MemoryUsed where
  "MemoryUsed other unrepresentable r = getStorageValueFromList other unrepresentable r ''mem_used''"

definition SwapUsed where
  "SwapUsed other unrepresentable r = getStorageValueFromList other unrepresentable r ''swap_used''"

definition getFloatValueFromList ::
  "(string \<Rightarrow> error + float64) \<Rightarrow> ResourceList \<Rightarrow> string \<Rightarrow> float64 \<times> error option" where
  "getFloatValueFromList other r KeyName =
     (case locateKey r KeyName of
        (resource, Some err) \<Rightarrow> (0, Some err)
      | (resource, None) \<Rightarrow>
          (case ParseFloat other (Value resource) of
             Inl err \<Rightarrow> (0, Some err)
           | Inr resconv \<Rightarrow> (resconv, None)))"

definition getIntegerValueFromList :: "ResourceList \<Rightarrow> string \<Rightarrow> int64 \<times> error option" where
  "getIntegerValueFromList r KeyName =
     (case locateKey r KeyName of
        (resource, Some err) \<Rightarrow> (0, Some err)
      | (resource, None) \<Rightarrow>
          (case ParseInt (Value resource) 64 of
             (resconv, Some err) \<Rightarrow> (0, Some err)
           | (resconv, None) \<Rightarrow> (resconv, None)))"

section \<open>The range pattern and the matcher\<close>

lemma compile_const: "Compile TASKRANGEIDENTIFIERREGEX =
  Inr (Concat (Repeat1 (CharRange CHR ''0'' CHR ''9''))
       (Concat (Literal CHR ''-'')
         (Concat (Repeat1 (CharRange CHR ''0'' CHR ''9''))
           (Concat (Literal CHR '':'') (CharRange CHR ''0'' CHR ''9'')))))"
  by (simp add: Compile_def TASKRANGEIDENTIFIERREGEX_def is_meta_def)

lemma plus_lang_nonempty: "u \<in> plus_lang A \<Longrightarrow> [] \<notin> A \<Longrightarrow> u \<noteq> []"
  by (induction rule: plus_lang.induct) auto

lemma lang_nonempty: "[] \<notin> lang r"
proof (induction r)
  case (Repeat1 r)
  then show ?case using plus_lang_nonempty by auto
qed auto

lemma remainders_sound:
  "rest \<in> set (remainders r s) \<Longrightarrow> \<exists>u. u \<in> lang r \<and> s = u @ rest"
proof (induction r s arbitrary: rest rule: remainders.induct)
  case (1 lo hi s)
  then show ?case by (auto split: list.splits if_splits)
next
  case (2 x s)
  then show ?case by (auto split: list.splits if_splits)
next
  case (3 r1 r2 s)
  from "3.prems" obtain mid where m: "mid \<in> set (remainders r1 s)" "rest \<in> set (remainders r2 mid)"
    by auto
  from "3.IH"(1)[OF m(1)] obtain u where u: "u \<in> lang r1" "s = u @ mid" by blast
  from "3.IH"(2)[OF m(1) m(2)] obtain v where v: "v \<in> lang r2" "mid = v @ rest" by blast
  show ?case using u v by auto
next
  case (4 r s)
  from "4.prems" obtain mid where m: "mid \<in> set (remainders r s)"
    and r: "rest = mid \<or> (length mid < length s \<and> rest \<in> set (remainders (Repeat1 r) mid))"
    by (auto simp: remainders.simps(4)[of r s] split: if_splits)
  from "4.IH"(1)[OF m] obtain u where u: "u \<in> lang r" "s = u @ mid" by blast
  from r show ?case
  proof
    assume "rest = mid"
    then show ?thesis using u by (auto intro: plus_lang.one)
  next
    assume a: "length mid < length s \<and> rest \<in> set (remainders (Repeat1 r) mid)"
    from "4.IH"(2)[OF m] a obtain v where v: "v \<in> lang (Repeat1 r)" "mid = v @ rest" by blast
    then show ?thesis using u by (auto intro: plus_lang.more)
  qed
qed

lemma in_concat_mapI: "x \<in> set xs \<Longrightarrow> y \<in> set (f x) \<Longrightarrow> y \<in> set (concat (map f xs))"
  by auto

lemma remainders_complete_aux:
  "u \<in> lang r \<Longrightarrow> rest \<in> set (remainders r (u @ rest))"
proof (induction r arbitrary: u rest)
  case (CharRange x1 x2)
  then show ?case by auto
next
  case (Literal x)
  then show ?case by auto
next
  case (Concat r1 r2)
  from Concat.prems obtain a b where ab: "u = a @ b" "a \<in> lang r1" "b \<in> lang r2" by auto
  have 1: "b @ rest \<in> set (remainders r1 (a @ b @ rest))" using Concat.IH(1)[OF ab(2)] .
  have 2: "rest \<in> set (remainders r2 (b @ rest))" using Concat.IH(2)[OF ab(3)] .
  have "rest \<in> set (concat (map (remainders r2) (remainders r1 (a @ b @ rest))))"
    using 1 2 by (rule in_concat_mapI)
  then show ?case unfolding ab(1) by simp
next
  case (Repeat1 r)
  from Repeat1.prems have "u \<in> plus_lang (lang r)" by simp
  then show ?case
  proof (induction arbitrary: rest rule: plus_lang.induct)
    case (one u)
    have a: "rest \<in> set (remainders r (u @ rest))" using Repeat1.IH[OF one.hyps] .
    show ?case
      by (subst remainders.simps(4), rule in_concat_mapI[OF a]) simp
  next
    case (more u v)
    have "u \<noteq> []" using more.hyps(1) lang_nonempty by metis
    then have len: "length (v @ rest) < length (u @ v @ rest)" by simp
    have a: "v @ rest \<in> set (remainders r (u @ v @ rest))" using Repeat1.IH[OF more.hyps(1)] by simp
    have b: "rest \<in> set (remainders (Repeat1 r) (v @ rest))" using more.IH by simp
    have c: "rest \<in> set ((if length (v @ rest) < length (u @ v @ rest)
                          then remainders (Repeat1 r) (v @ rest) else []) @ [v @ rest])"
      using len b by simp
    have "rest \<in> set (remainders (Repeat1 r) (u @ v @ rest))"
      by (subst remainders.simps(4), rule in_concat_mapI[OF a]) (rule c)
    then show ?case by simp
  qed
qed

lemma remainders_iff:
  "rest \<in> set (remainders r s) \<longleftrightarrow> (\<exists>u. u \<in> lang r \<and> s = u @ rest)"
  using remainders_sound remainders_complete_aux by blast


lemma find_match_None_iff:
  "find_match re s = None \<longleftrightarrow> (\<forall>u v w. s = u @ v @ w \<longrightarrow> v \<notin> lang re)"
proof (induction s)
  case Nil
  have "remainders re [] = [] \<longleftrightarrow> (\<forall>v. v \<in> lang re \<longrightarrow> v \<noteq> [])"
    using remainders_iff[of _ re "[]"] lang_nonempty[of re]
    by (metis append_is_Nil_conv list.set_intros(1) neq_Nil_conv empty_iff empty_set)
  then show ?case using lang_nonempty[of re] by (auto split: list.splits)
next
  case (Cons c cs)
  have here: "remainders re (c # cs) = [] \<longleftrightarrow> (\<forall>v w. c # cs = v @ w \<longrightarrow> v \<notin> lang re)"
  proof
    assume e: "remainders re (c # cs) = []"
    show "\<forall>v w. c # cs = v @ w \<longrightarrow> v \<notin> lang re"
    proof (intro allI impI notI)
      fix v w assume "c # cs = v @ w" "v \<in> lang re"
      then have "w \<in> set (remainders re (c # cs))" using remainders_iff by blast
      then show False using e by simp
    qed
  next
    assume a: "\<forall>v w. c # cs = v @ w \<longrightarrow> v \<notin> lang re"
    show "remainders re (c # cs) = []"
    proof (rule ccontr)
      assume "remainders re (c # cs) \<noteq> []"
      then obtain rest where "rest \<in> set (remainders re (c # cs))" by (cases "remainders re (c # cs)") auto
      then obtain v where "v \<in> lang re" "c # cs = v @ rest" using remainders_iff by blast
      then show False using a by blast
    qed
  qed
  have split: "(\<forall>u v w. c # cs = u @ v @ w \<longrightarrow> v \<notin> lang re) \<longleftrightarrow>
      (\<forall>v w. c # cs = v @ w \<longrightarrow> v \<notin> lang re) \<and> (\<forall>u v w. cs = u @ v @ w \<longrightarrow> v \<notin> lang re)"
    (is "?L \<longleftrightarrow> ?A \<and> ?B")
  proof
    assume L: ?L
    have ?A using L by (metis append_Nil)
    moreover have ?B using L by (metis append_Cons)
    ultimately show "?A \<and> ?B" ..
  next
    assume AB: "?A \<and> ?B"
    show ?L
    proof (intro allI impI)
      fix u v w assume eq: "c # cs = u @ v @ w"
      show "v \<notin> lang re"
      proof (cases u)
        case Nil
        then show ?thesis using AB eq by simp
      next
        case (Cons a u')
        then have "cs = u' @ v @ w" using eq by simp
        then show ?thesis using AB by blast
      qed
    qed
  qed
  show ?case
  proof (cases "remainders re (c # cs)")
    case Nil
    then show ?thesis using here split Cons.IH by simp
  next
    case (Cons r rs)
    then have "\<not> (\<forall>v w. c # cs = v @ w \<longrightarrow> v \<notin> lang re)" using here by simp
    then show ?thesis using Cons split by simp
  qed
qed

lemma MatchString_iff: "MatchString re s \<longleftrightarrow> contains_match re s"
  unfolding MatchString_def contains_match_def find_match_None_iff by blast

lemma plus_lang_split_first: "c \<in> plus_lang A \<Longrightarrow> \<exists>d c'. d \<in> A \<and> c = d @ c'"
  by (induction rule: plus_lang.induct) (metis append_Nil2, metis)

lemma lang_task_range_regexp: "lang task_range_regexp =
  {a @ ''-'' @ b @ '':'' @ d |a b d. a \<in> plus_lang (lang (CharRange CHR ''0'' CHR ''9'')) \<and>
     b \<in> plus_lang (lang (CharRange CHR ''0'' CHR ''9'')) \<and> d \<in> lang (CharRange CHR ''0'' CHR ''9'')}"
  unfolding task_range_regexp_def lang.simps(2,3,4) by (simp del: lang.simps) blast

lemma lang_spec_re: "lang spec_range_pattern =
  {a @ ''-'' @ b @ '':'' @ d |a b d. a \<in> plus_lang (lang (CharRange CHR ''0'' CHR ''9'')) \<and>
     b \<in> plus_lang (lang (CharRange CHR ''0'' CHR ''9'')) \<and> d \<in> plus_lang (lang (CharRange CHR ''0'' CHR ''9''))}"
  unfolding spec_range_pattern_def lang.simps(2,3,4) by (simp del: lang.simps) blast

lemma contains_code_spec: "contains_match task_range_regexp s \<longleftrightarrow> contains_match spec_range_pattern s"
proof
  assume "contains_match task_range_regexp s"
  then obtain u v w where s: "s = u @ v @ w" and v: "v \<in> lang task_range_regexp"
    unfolding contains_match_def by blast
  from v have "v \<in> lang spec_range_pattern"
    unfolding lang_task_range_regexp lang_spec_re using plus_lang.one by blast
  with s show "contains_match spec_range_pattern s" unfolding contains_match_def by blast
next
  assume "contains_match spec_range_pattern s"
  then obtain u v w where s: "s = u @ v @ w" and v: "v \<in> lang spec_range_pattern"
    unfolding contains_match_def by blast
  from v obtain a b c where abc: "v = a @ ''-'' @ b @ '':'' @ c"
     "a \<in> plus_lang (lang (CharRange CHR ''0'' CHR ''9''))" "b \<in> plus_lang (lang (CharRange CHR ''0'' CHR ''9''))"
     "c \<in> plus_lang (lang (CharRange CHR ''0'' CHR ''9''))"
    unfolding lang_spec_re by blast
  from plus_lang_split_first[OF abc(4)] obtain d c' where d: "d \<in> lang (CharRange CHR ''0'' CHR ''9'')" "c = d @ c'"
    by blast
  have "a @ ''-'' @ b @ '':'' @ d \<in> lang task_range_regexp" unfolding lang_task_range_regexp using abc(2,3) d(1) by blast
  moreover have "s = u @ (a @ ''-'' @ b @ '':'' @ d) @ (c' @ w)" using s abc(1) d(2) by simp
  ultimately show "contains_match task_range_regexp s" unfolding contains_match_def by blast
qed

lemma DoesJobContainTaskRange_eq:
  "DoesJobContainTaskRange j = (MatchString task_range_regexp (Source (Tasks j)), None)"
  by (simp add: DoesJobContainTaskRange_def compile_const task_range_regexp_def)

section \<open>The expansion loop\<close>

lemma loop_step: "i \<le>s e \<Longrightarrow> Extrapolate_loop orig e st i jl = Extrapolate_loop orig e st (i + st) (jl @ [with_task_id orig i])"
  by (subst Extrapolate_loop.simps) (simp add: with_task_id_def)

lemma loop_exit: "\<not> i \<le>s e \<Longrightarrow> Extrapolate_loop orig e st i jl = Some jl"
  by (subst Extrapolate_loop.simps) simp

lemma loop_zero_step_diverges:
  assumes "i \<le>s e"
  shows "Extrapolate_loop orig e 0 i jl = None"
proof (rule ccontr)
  assume "Extrapolate_loop orig e 0 i jl \<noteq> None"
  then obtain y where y: "Extrapolate_loop orig e 0 i jl = Some y" by blast
  have "\<not> (0 = (0::int64) \<and> i \<le>s e)"
    by (rule Extrapolate_loop.raw_induct[where P = "\<lambda>orig e st i jl y. \<not> (st = 0 \<and> i \<le>s e)", OF _ y])
       (auto split: if_splits)
  with assms show False by simp
qed

lemma sle_max_int64: "(i :: int64) \<le>s 9223372036854775807"
proof -
  have "sint i < 2 ^ 63" using sint_lt[of i] by simp
  then show ?thesis by (simp add: word_sle_eq)
qed

lemma loop_max_end_diverges:
  "Extrapolate_loop orig 9223372036854775807 st i jl = None"
proof (rule ccontr)
  assume "Extrapolate_loop orig 9223372036854775807 st i jl \<noteq> None"
  then obtain y where y: "Extrapolate_loop orig 9223372036854775807 st i jl = Some y" by blast
  have "(9223372036854775807 :: int64) \<noteq> 9223372036854775807"
    by (rule Extrapolate_loop.raw_induct[where P = "\<lambda>orig e st i jl y. e \<noteq> 9223372036854775807", OF _ y])
       (auto split: if_splits simp: sle_max_int64)
  then show False by simp
qed

lemma loop_result_elems:
  assumes "Extrapolate_loop orig e st i jl = Some y"
  shows "\<forall>c \<in> set y. c \<in> set jl \<or> (\<exists>k. c = with_task_id orig k)"
  by (rule Extrapolate_loop.raw_induct[where P = "\<lambda>orig e st i jl y. \<forall>c \<in> set y. c \<in> set jl \<or> (\<exists>k. c = with_task_id orig k)", OF _ assms])
     (fastforce split: if_splits simp: with_task_id_def)

lemma sint_add_no_overflow:
  fixes i st :: int64
  assumes "- (2 ^ 63) \<le> sint i + sint st" "sint i + sint st < 2 ^ 63"
  shows "sint (i + st) = sint i + sint st"
  using assms by (simp add: sint_word_ariths signed_take_bit_int_eq_self)

lemma loop_terminates:
  fixes i e st :: int64
  assumes "0 < sint st" "sint e + sint st < 2 ^ 63"
  shows "Extrapolate_loop orig e st i jl =
     Some (jl @ map (\<lambda>k. with_task_id orig (word_of_int k)) (range_ids (sint i) (sint e) (sint st)))"
  using assms
proof (induction "nat (sint e - sint i + 1)" arbitrary: i jl rule: less_induct)
  case less
  show ?case
  proof (cases "i \<le>s e")
    case False
    then have "\<not> sint i \<le> sint e" by (simp add: word_sle_eq)
    then have "range_ids (sint i) (sint e) (sint st) = []" by (simp add: range_ids.simps)
    then show ?thesis using False by (simp add: loop_exit)
  next
    case True
    then have le: "sint i \<le> sint e" by (simp add: word_sle_eq)
    have lo: "- (2 ^ 63) \<le> sint i" using sint_ge[of i] by simp
    have s: "sint (i + st) = sint i + sint st"
      by (rule sint_add_no_overflow) (use le lo less.prems in auto)
    have m: "nat (sint e - sint (i + st) + 1) < nat (sint e - sint i + 1)"
      using s le less.prems by auto
    have IH: "Extrapolate_loop orig e st (i + st) (jl @ [with_task_id orig i]) =
      Some ((jl @ [with_task_id orig i]) @
        map (\<lambda>k. with_task_id orig (word_of_int k)) (range_ids (sint (i + st)) (sint e) (sint st)))"
      by (rule less.hyps[OF m less.prems])
    have r: "range_ids (sint i) (sint e) (sint st) = sint i # range_ids (sint i + sint st) (sint e) (sint st)"
      using le less.prems(1) by (subst range_ids.simps) simp
    show ?thesis
      unfolding loop_step[OF True] IH r s by simp
  qed
qed

section \<open>Matching and splitting a range expression\<close>

lemma digits_plus_lang_iff:
  "u \<in> plus_lang (lang (CharRange CHR ''0'' CHR ''9'')) \<longleftrightarrow> u \<noteq> [] \<and> list_all is_digit u"
proof
  assume "u \<in> plus_lang (lang (CharRange CHR ''0'' CHR ''9''))"
  then show "u \<noteq> [] \<and> list_all is_digit u"
    by (induction rule: plus_lang.induct) (auto simp: is_digit_def)
next
  assume "u \<noteq> [] \<and> list_all is_digit u"
  then show "u \<in> plus_lang (lang (CharRange CHR ''0'' CHR ''9''))"
  proof (induction u)
    case Nil
    then show ?case by simp
  next
    case (Cons c cs)
    have c: "[c] \<in> lang (CharRange CHR ''0'' CHR ''9'')" using Cons.prems by (simp add: is_digit_def)
    show ?case
    proof (cases cs)
      case Nil
      then show ?thesis using plus_lang.one[OF c] by simp
    next
      case (Cons d ds)
      then have "cs \<in> plus_lang (lang (CharRange CHR ''0'' CHR ''9''))" using Cons.IH Cons.prems by simp
      from plus_lang.more[OF c this] show ?thesis by simp
    qed
  qed
qed

lemma digit_not_sep: "is_digit c \<Longrightarrow> c \<noteq> CHR ''-'' \<and> c \<noteq> CHR '':'' \<and> c \<noteq> CHR ''+''"
  by (auto simp: is_digit_def in_range_def)

lemma digits_no_sep:
  "list_all is_digit u \<Longrightarrow> CHR ''-'' \<notin> set u \<and> CHR '':'' \<notin> set u"
  using digit_not_sep by (auto simp: list_all_iff)

lemma split_at_sep_unique:
  "x @ c # y = x' @ c # y' \<Longrightarrow> c \<notin> set x \<Longrightarrow> c \<notin> set x' \<Longrightarrow> x = x' \<and> y = y'"
proof (induction x arbitrary: x')
  case Nil
  then show ?case by (cases x') auto
next
  case (Cons a x)
  then show ?case by (cases x') auto
qed

lemma lang_task_range_regexp_iff:
  "u \<in> lang task_range_regexp \<longleftrightarrow> (\<exists>a b d. u = a @ ''-'' @ b @ '':'' @ [d] \<and> a \<noteq> [] \<and> list_all is_digit a \<and>
      b \<noteq> [] \<and> list_all is_digit b \<and> is_digit d)"
  unfolding lang_task_range_regexp digits_plus_lang_iff by (auto simp: is_digit_def)

lemma range_expr_remainders:
  assumes a: "a \<noteq> []" "list_all is_digit a" and b: "b \<noteq> []" "list_all is_digit b" and d: "is_digit d"
  shows "set (remainders task_range_regexp (a @ ''-'' @ b @ '':'' @ [d])) = {[]}"
proof -
  let ?s = "a @ ''-'' @ b @ '':'' @ [d]"
  have whole: "?s \<in> lang task_range_regexp" unfolding lang_task_range_regexp_iff using a b d by blast
  have 1: "[] \<in> set (remainders task_range_regexp ?s)"
    using remainders_complete_aux[OF whole, of "[]"] by simp
  have 2: "rest = []" if "rest \<in> set (remainders task_range_regexp ?s)" for rest
  proof -
    from that obtain u where u: "u \<in> lang task_range_regexp" "?s = u @ rest" using remainders_sound by blast
    from u(1) obtain a' b' d' where u': "u = a' @ ''-'' @ b' @ '':'' @ [d']" "list_all is_digit a'" "list_all is_digit b'"
      unfolding lang_task_range_regexp_iff by blast
    have e1: "a @ CHR ''-'' # (b @ '':'' @ [d]) = a' @ CHR ''-'' # (b' @ '':'' @ [d'] @ rest)"
      using u(2) u'(1) by simp
    have "a = a' \<and> b @ '':'' @ [d] = b' @ '':'' @ [d'] @ rest"
      by (rule split_at_sep_unique[OF e1]) (use digits_no_sep a(2) u'(2) in auto)
    then have e2: "b @ CHR '':'' # [d] = b' @ CHR '':'' # ([d'] @ rest)" by simp
    have "b = b' \<and> [d] = [d'] @ rest"
      by (rule split_at_sep_unique[OF e2]) (use digits_no_sep b(2) u'(3) in auto)
    then show ?thesis by simp
  qed
  show ?thesis using 1 2 by auto
qed

lemma range_expr_find_match:
  assumes a: "a \<noteq> []" "list_all is_digit a" and b: "b \<noteq> []" "list_all is_digit b" and d: "is_digit d"
  shows "find_match task_range_regexp (a @ ''-'' @ b @ '':'' @ [d]) = Some (a @ ''-'' @ b @ '':'' @ [d])"
proof -
  let ?s = "a @ ''-'' @ b @ '':'' @ [d]"
  from range_expr_remainders[OF assms] have r: "set (remainders task_range_regexp ?s) = {[]}" .
  then obtain x xs where xs: "remainders task_range_regexp ?s = x # xs" by (cases "remainders task_range_regexp ?s") auto
  with r have x: "x = []" by auto
  obtain c cs where s: "?s = c # cs" using a(1) by (cases a) auto
  have "find_match task_range_regexp (c # cs) = Some (c # cs)"
    using xs x unfolding s by simp
  then show ?thesis unfolding s .
qed

lemma Split_no_sep: "sep \<notin> set x \<Longrightarrow> Split x sep = [x]"
  by (induction x) auto

lemma Split_at_first: "sep \<notin> set x \<Longrightarrow> Split (x @ sep # y) sep = x # Split y sep"
  by (induction x) auto

section \<open>ParseUint and ParseInt\<close>

lemma dec_val_simps [simp]:
  "dec_val n [] = n" "dec_val n (c # cs) = dec_val (n * 10 + digit_val c) cs"
  by (simp_all add: dec_val_def)

lemma dec_val_snoc [simp]: "dec_val n (cs @ [c]) = dec_val n cs * 10 + digit_val c"
  by (simp add: dec_val_def)

lemma dec_val_ge: "n \<le> dec_val n cs"
proof (induction cs arbitrary: n)
  case Nil
  then show ?case by simp
next
  case (Cons c cs)
  have "n \<le> n * 10 + digit_val c" by simp
  also have "\<dots> \<le> dec_val (n * 10 + digit_val c) cs" by (rule Cons.IH)
  finally show ?case by simp
qed

lemma ParseUint_loop_digits:
  assumes "list_all is_digit cs" "M < 2 ^ 64" "n \<le> M"
  shows "ParseUint_loop M n cs = (if dec_val n cs \<le> M then (dec_val n cs, None) else (M, Some ErrRange))"
  using assms(1,3)
proof (induction cs arbitrary: n)
  case Nil
  then show ?case by simp
next
  case (Cons c cs)
  let ?n1 = "n * 10 + digit_val c"
  have ge: "?n1 \<le> dec_val ?n1 cs" by (rule dec_val_ge)
  have dig: "is_digit c" "list_all is_digit cs" using Cons.prems by simp_all
  show ?case
  proof (cases "n \<ge> (2 ^ 64 - 1) div 10 + 1")
    case True
    then have "M < ?n1" using assms(2) by simp
    then have "M < dec_val ?n1 cs" using ge by linarith
    then show ?thesis using True dig by simp
  next
    case False
    show ?thesis
    proof (cases "?n1 > M")
      case True
      then have "M < dec_val ?n1 cs" using ge by linarith
      then show ?thesis using True False dig by simp
    next
      case F2: False
      then have "?n1 \<le> M" by simp
      from Cons.IH[OF dig(2) this] show ?thesis using False F2 dig by simp
    qed
  qed
qed

lemma ParseUint_loop_success:
  assumes "ParseUint_loop M n cs = (r, None)"
  shows "list_all is_digit cs"
  using assms
proof (induction cs arbitrary: n)
  case Nil
  then show ?case by simp
next
  case (Cons c cs)
  then show ?case by (auto split: if_splits)
qed

lemma ParseUint_success_iff:
  assumes "M = 2 ^ b - 1" "b \<le> 64"
  shows "ParseUint s b = (r, None) \<longleftrightarrow> s \<noteq> [] \<and> list_all is_digit s \<and> dec_val 0 s \<le> M \<and> r = dec_val 0 s"
proof -
  have "(2::nat) ^ b \<le> 2 ^ 64" using power_increasing[of b 64 "2::nat"] assms(2) by simp
  then have M: "M < 2 ^ 64" using assms(1) by simp
  show ?thesis
  proof (cases "s \<noteq> [] \<and> list_all is_digit s")
    case True
    then show ?thesis using ParseUint_loop_digits[OF _ M, of s 0] assms(1)
      by (auto simp: ParseUint_def)
  next
    case False
    then show ?thesis using ParseUint_loop_success[of "2 ^ b - 1" 0 s r]
      by (auto simp: ParseUint_def)
  qed
qed

lemma ParseInt_one_digit:
  assumes "is_digit d"
  shows "ParseInt [d] 64 = (word_of_nat (digit_val d), None)"
proof -
  have dv: "digit_val d \<le> 9" using assms by (auto simp: is_digit_def in_range_def digit_val_def)
  have "ParseUint [d] 64 = (digit_val d, None)"
    using ParseUint_success_iff[of "2^64 - 1" 64 "[d]" "digit_val d"] assms dv by simp
  then show ?thesis using dv digit_not_sep[OF assms] by (simp add: ParseInt_def)
qed

section \<open>ExtrapolateTasksToJobs on a range expression\<close>

lemma DoesJobContainTaskRange_find:
  "DoesJobContainTaskRange j = (find_match task_range_regexp (Source (Tasks j)) \<noteq> None, None)"
  by (simp add: DoesJobContainTaskRange_eq MatchString_def)

lemma ExtrapolateTasksToJobs_no_range:
  assumes "find_match task_range_regexp (Source (Tasks j)) = None"
  shows "ExtrapolateTasksToJobs j = Some (Return ([], Some (ErrorString
              ''The provided job does not actually indicate a range of tasks'')))"
  using assms by (simp add: ExtrapolateTasksToJobs_def DoesJobContainTaskRange_find)

lemma ExtrapolateTasksToJobs_parsed:
  assumes "find_match task_range_regexp (Source (Tasks j)) = Some (a @ ''-'' @ b @ '':'' @ c)"
    and "CHR ''-'' \<notin> set a" "CHR '':'' \<notin> set a" "CHR ''-'' \<notin> set b" "CHR '':'' \<notin> set b" "CHR '':'' \<notin> set c"
    and "ParseInt c 64 = (st, None)" "ParseInt a 64 = (s, None)" "ParseInt b 64 = (e, None)"
  shows "ExtrapolateTasksToJobs j = map_option (\<lambda>jl. Return (jl, None)) (Extrapolate_loop j e st s [])"
proof -
  have sp1: "Split (a @ CHR ''-'' # b @ CHR '':'' # c) CHR '':'' = [a @ CHR ''-'' # b, c]"
    using Split_at_first[of "CHR '':''" "a @ CHR ''-'' # b" c] Split_no_sep[of "CHR '':''" c] assms(3,5,6) by simp
  have sp2: "Split (a @ CHR ''-'' # b) CHR ''-'' = [a, b]"
    using Split_at_first[of "CHR ''-''" a b] Split_no_sep[of "CHR ''-''" b] assms(2,4) by simp
  show ?thesis
    using assms(1,7,8,9)
    by (simp add: ExtrapolateTasksToJobs_def DoesJobContainTaskRange_find compile_const
        task_range_regexp_def[symmetric] FindString_def sp1 sp2)
qed

lemma ExtrapolateTasksToJobs_single_digit_step:
  assumes src: "Source (Tasks j) = a @ ''-'' @ b @ '':'' @ [d]"
    and a: "a \<noteq> []" "list_all is_digit a" and b: "b \<noteq> []" "list_all is_digit b"
    and d: "is_digit d" "d \<noteq> CHR ''0''"
    and pa: "ParseInt a 64 = (start, None)" and pb: "ParseInt b 64 = (end, None)"
    and no_wrap: "sint end + int (digit_val d) < 2 ^ 63"
  shows "ExtrapolateTasksToJobs j =
     Some (Return (map (\<lambda>i. with_task_id j (word_of_int i))
                       (range_ids (sint start) (sint end) (int (digit_val d))), None))"
proof -
  have "(of_char d :: nat) \<noteq> of_char CHR ''0''" using d(2) by (simp only: of_char_eq_iff not_False_eq_True)
  then have dv: "0 < digit_val d" "digit_val d \<le> 9"
    using d by (auto simp: is_digit_def in_range_def digit_val_def)
  have st: "sint (word_of_nat (digit_val d) :: int64) = int (digit_val d)"
    using dv by (simp add: signed_of_nat signed_take_bit_int_eq_self)
  have fm: "find_match task_range_regexp (Source (Tasks j)) = Some (a @ ''-'' @ b @ '':'' @ [d])"
    unfolding src by (rule range_expr_find_match[OF a b d(1)])
  have "ExtrapolateTasksToJobs j =
      map_option (\<lambda>jl. Return (jl, None)) (Extrapolate_loop j end (word_of_nat (digit_val d)) start [])"
    by (rule ExtrapolateTasksToJobs_parsed[OF fm _ _ _ _ _ ParseInt_one_digit[OF d(1)] pa pb])
       (use digits_no_sep[OF a(2)] digits_no_sep[OF b(2)] digit_not_sep[OF d(1)] in auto)
  also have "Extrapolate_loop j end (word_of_nat (digit_val d)) start [] =
      Some ([] @ map (\<lambda>k. with_task_id j (word_of_int k))
                    (range_ids (sint start) (sint end) (sint (word_of_nat (digit_val d) :: int64))))"
    by (rule loop_terminates) (use st dv no_wrap in auto)
  finally show ?thesis by (simp add: st)
qed

section \<open>Claims about range detection and expansion\<close>

lemma find_match_None_spec:
  "find_match task_range_regexp s = None \<longleftrightarrow> \<not> contains_match spec_range_pattern s"
proof -
  have "MatchString task_range_regexp s = contains_match spec_range_pattern s"
    by (simp add: MatchString_iff contains_code_spec)
  then show ?thesis unfolding MatchString_def by auto
qed

text \<open>
  Claim C6. \<open>DoesJobContainTaskRange\<close> answers true exactly when the Task's source
  contains, anywhere in it, a substring matching \<open>\d+-\d+:\d+\<close>, and the error it
  returns is always \<open>nil\<close>. (The pattern compiled by the code ends in a single digit;
  a string contains a match of the one exactly when it contains a match of the other.)
\<close>

theorem DoesJobContainTaskRange_spec_pattern: "DoesJobContainTaskRange j = (contains_match spec_range_pattern (Source (Tasks j)), None)"
  by (simp add: DoesJobContainTaskRange_eq MatchString_iff contains_code_spec)

theorem DoesJobContainTaskRange_spec_pattern_witness:
  "DoesJobContainTaskRange (pending_job ''x40-55:10y'') = (True, None) \<and>
   contains_match spec_range_pattern ''x40-55:10y'' \<and>
   DoesJobContainTaskRange (pending_job ''42'') = (False, None) \<and>
   \<not> contains_match spec_range_pattern ''42''"
proof -
  have 1: "DoesJobContainTaskRange (pending_job ''x40-55:10y'') = (True, None)"
    by (simp add: DoesJobContainTaskRange_find pending_job_def task_range_regexp_def remainders.simps(4) in_range_def)
  have 2: "DoesJobContainTaskRange (pending_job ''42'') = (False, None)"
    by (simp add: DoesJobContainTaskRange_find pending_job_def task_range_regexp_def remainders.simps(4) in_range_def)
  from 1 2 DoesJobContainTaskRange_spec_pattern[of "pending_job ''x40-55:10y''"] DoesJobContainTaskRange_spec_pattern[of "pending_job ''42''"] show ?thesis
    by (simp add: pending_job_def)
qed

text \<open>
  Claim C5. On a job whose Task source contains no match of the range pattern,
  \<open>ExtrapolateTasksToJobs\<close> returns the empty list together with the error
  "The provided job does not actually indicate a range of tasks".
\<close>

theorem ExtrapolateTasksToJobs_without_range:
  assumes "\<not> contains_match spec_range_pattern (Source (Tasks original))"
  shows "ExtrapolateTasksToJobs original =
     Some (Return ([], Some (ErrorString ''The provided job does not actually indicate a range of tasks'')))"
proof -
  have "find_match task_range_regexp (Source (Tasks original)) = None"
    using assms by (simp add: find_match_None_spec)
  then show ?thesis by (rule ExtrapolateTasksToJobs_no_range)
qed

theorem ExtrapolateTasksToJobs_without_range_witness:
  "\<not> contains_match spec_range_pattern ''42'' \<and>
   ExtrapolateTasksToJobs (pending_job ''42'') =
     Some (Return ([], Some (ErrorString ''The provided job does not actually indicate a range of tasks'')))"
proof -
  have "find_match task_range_regexp ''42'' = None"
    by (simp add: task_range_regexp_def remainders.simps(4) in_range_def)
  then have "\<not> contains_match spec_range_pattern ''42''"
    using find_match_None_spec by blast
  then have h: "\<not> contains_match spec_range_pattern (Source (Tasks (pending_job ''42'')))"
    by (simp add: pending_job_def)
  from ExtrapolateTasksToJobs_without_range[OF h] h show ?thesis by (simp add: pending_job_def)
qed

text \<open>
  Claim C2. The claim asks that a zero step be rejected with an error and that the
  call terminate. On the source \<open>"40-55:0"\<close> the code parses the step 0, enters the
  loop with \<open>i = 40 <= 55\<close> and never leaves it: the call does not return.
\<close>

theorem ExtrapolateTasksToJobs_zero_step_never_returns: "ExtrapolateTasksToJobs (pending_job ''40-55:0'') = None"
proof -
  have fm: "find_match task_range_regexp (Source (Tasks (pending_job ''40-55:0''))) = Some (''40'' @ ''-'' @ ''55'' @ '':'' @ ''0'')"
    by (simp add: pending_job_def task_range_regexp_def remainders.simps(4) in_range_def)
  have "ExtrapolateTasksToJobs (pending_job ''40-55:0'') =
      map_option (\<lambda>jl. Return (jl, None)) (Extrapolate_loop (pending_job ''40-55:0'') 55 0 40 [])"
    by (rule ExtrapolateTasksToJobs_parsed[OF fm])
       (simp_all add: ParseInt_def ParseUint_def is_digit_def in_range_def digit_val_def)
  moreover have "Extrapolate_loop (pending_job ''40-55:0'') 55 0 40 [] = None"
    by (rule loop_zero_step_diverges) (simp add: word_sle_eq)
  ultimately show ?thesis by simp
qed

text \<open>
  Claim C1. The claim asks for one clone per value \<open>start, start + step, ...\<close> up to
  \<open>end\<close>. The pattern of the code ends in \<open>[0-9]\<close>, one digit, so \<open>FindString\<close> on
  \<open>"1-12:10"\<close> yields \<open>"1-12:1"\<close>: the step parsed is 1 and twelve clones with the
  ids 1 to 12 are returned, where the claim has the ids 1 and 11. (For a step of one
  non-zero digit the result is the one claimed, as long as \<open>end + step\<close> fits in an
  \<open>int64\<close>: lemma \<open>ExtrapolateTasksToJobs_single_digit_step\<close>.)
\<close>

theorem ExtrapolateTasksToJobs_two_digit_step: "ExtrapolateTasksToJobs (pending_job ''1-12:10'') =
   Some (Return (map (with_task_id (pending_job ''1-12:10'')) [1, 2, 3, 4, 5, 6, 7, 8, 9, 10, 11, 12], None))"
proof -
  have fm: "find_match task_range_regexp (Source (Tasks (pending_job ''1-12:10''))) = Some (''1'' @ ''-'' @ ''12'' @ '':'' @ ''1'')"
    by (simp add: pending_job_def task_range_regexp_def remainders.simps(4) in_range_def)
  have "ExtrapolateTasksToJobs (pending_job ''1-12:10'') =
      map_option (\<lambda>jl. Return (jl, None)) (Extrapolate_loop (pending_job ''1-12:10'') 12 1 1 [])"
    by (rule ExtrapolateTasksToJobs_parsed[OF fm])
       (simp_all add: ParseInt_def ParseUint_def is_digit_def in_range_def digit_val_def)
  moreover have "Extrapolate_loop (pending_job ''1-12:10'') 12 1 1 [] =
     Some (map (with_task_id (pending_job ''1-12:10'')) [1, 2, 3, 4, 5, 6, 7, 8, 9, 10, 11, 12])"
    by (simp add: loop_step loop_exit word_sle_eq)
  ultimately show ?thesis by simp
qed

lemma Contains_single: "Contains s [c] \<longleftrightarrow> c \<in> set s"
  by (induction s) auto

lemma find_match_Some_colon:
  assumes "find_match task_range_regexp s \<noteq> None"
  shows "CHR '':'' \<in> set s"
proof -
  from assms obtain u v w where s: "s = u @ v @ w" and v: "v \<in> lang task_range_regexp"
    unfolding find_match_None_iff by blast
  from v obtain a b d where "v = a @ ''-'' @ b @ '':'' @ [d]" unfolding lang_task_range_regexp_iff by blast
  with s show ?thesis by simp
qed

lemma ExtrapolateTasksToJobs_nonempty:
  assumes "ExtrapolateTasksToJobs j = Some (Return (jl, err))" "jl \<noteq> []"
  shows "find_match task_range_regexp (Source (Tasks j)) \<noteq> None \<and>
         (\<exists>e st s. Extrapolate_loop j e st s [] = Some jl)"
  using assms
  by (auto simp: ExtrapolateTasksToJobs_def DoesJobContainTaskRange_find compile_const Let_def
           split: if_splits prod.splits option.splits)

lemma ex_40_55_5:
  "ExtrapolateTasksToJobs (pending_job ''40-55:5'') =
     Some (Return (map (with_task_id (pending_job ''40-55:5'')) [40, 45, 50, 55], None))"
proof -
  have "ExtrapolateTasksToJobs (pending_job ''40-55:5'') =
     Some (Return (map (\<lambda>i. with_task_id (pending_job ''40-55:5'') (word_of_int i))
                       (range_ids (sint (40::int64)) (sint (55::int64)) (int (digit_val CHR ''5''))), None))"
    by (rule ExtrapolateTasksToJobs_single_digit_step[where a = "''40''" and b = "''55''"])
       (simp_all add: pending_job_def is_digit_def in_range_def digit_val_def ParseInt_def ParseUint_def)
  then show ?thesis by (simp add: digit_val_def range_ids.simps)
qed

text \<open>
  Claim C10. Every clone returned by \<open>ExtrapolateTasksToJobs\<close> is the original with
  only the task id replaced: its Task keeps the original source text, so
  \<open>DoesJobContainTaskRange\<close> is still true of it and \<open>MarshalXML\<close> emits the original
  range expression, whatever task id the clone was given.
\<close>

theorem clones_keep_range_source:
  assumes ret: "ExtrapolateTasksToJobs original = Some (Return (jl, err))" and c: "c \<in> set jl"
  shows "(\<exists>i. c = with_task_id original i) \<and>
         Source (Tasks c) = Source (Tasks original) \<and>
         DoesJobContainTaskRange c = (True, None) \<and>
         MarshalXML (Tasks c) = (Some (Source (Tasks original)), None)"
proof -
  from c have ne: "jl \<noteq> []" by auto
  from ExtrapolateTasksToJobs_nonempty[OF ret ne] obtain e st s
    where fm: "find_match task_range_regexp (Source (Tasks original)) \<noteq> None"
      and loop: "Extrapolate_loop original e st s [] = Some jl" by blast
  from loop_result_elems[OF loop] c obtain i where i: "c = with_task_id original i" by auto
  then have src: "Source (Tasks c) = Source (Tasks original)" by (simp add: with_task_id_def)
  have colon: "Contains (Source (Tasks original)) '':''"
    using find_match_Some_colon[OF fm] by (simp only: Contains_single)
  have "DoesJobContainTaskRange c = (True, None)"
    using fm by (simp add: DoesJobContainTaskRange_find src)
  moreover have "MarshalXML (Tasks c) = (Some (Source (Tasks original)), None)"
    using colon by (simp add: MarshalXML_def src)
  ultimately show ?thesis using i src by blast
qed

theorem clones_keep_range_source_witness:
  "ExtrapolateTasksToJobs (pending_job ''40-55:5'') =
     Some (Return (map (with_task_id (pending_job ''40-55:5'')) [40, 45, 50, 55], None)) \<and>
   TaskID (Tasks (with_task_id (pending_job ''40-55:5'') 45)) = 45 \<and>
   DoesJobContainTaskRange (with_task_id (pending_job ''40-55:5'') 45) = (True, None) \<and>
   MarshalXML (Tasks (with_task_id (pending_job ''40-55:5'') 45)) = (Some ''40-55:5'', None)"
proof -
  have c: "with_task_id (pending_job ''40-55:5'') 45 \<in> set (map (with_task_id (pending_job ''40-55:5'')) [40, 45, 50, 55])"
    by simp
  from clones_keep_range_source[OF ex_40_55_5 c] ex_40_55_5 show ?thesis
    by (simp add: pending_job_def with_task_id_def)
qed

section \<open>Decimal text and integers\<close>

lemma digit_char_props:
  assumes "d < 10"
  shows "is_digit (digit_char d)" "digit_val (digit_char d) = d" "(digit_char d = CHR ''0'') = (d = 0)"
proof -
  from assms have "d \<in> {0, 1, 2, 3, 4, 5, 6, 7, 8, 9}" by auto
  then show "is_digit (digit_char d)" "digit_val (digit_char d) = d" "(digit_char d = CHR ''0'') = (d = 0)"
    by (auto simp: digit_char_def is_digit_def in_range_def digit_val_def)
qed

lemma digit_val_lt: "is_digit c \<Longrightarrow> digit_val c < 10"
  by (auto simp: is_digit_def in_range_def digit_val_def)

lemma digit_char_digit_val:
  assumes "is_digit c"
  shows "digit_char (digit_val c) = c"
proof -
  have lt: "digit_val c < 10" using assms by (rule digit_val_lt)
  have "is_digit (digit_char (digit_val c))" "digit_val (digit_char (digit_val c)) = digit_val c"
    using digit_char_props[OF lt] by simp_all
  then have "(of_char (digit_char (digit_val c)) :: nat) = of_char c"
    using assms unfolding is_digit_def in_range_def digit_val_def by (simp del: of_char_eq_iff) arith
  then show ?thesis by (simp only: of_char_eq_iff)
qed

lemma decimal_small: "n < 10 \<Longrightarrow> decimal n = [digit_char n]"
  by (subst decimal.simps) simp

lemma decimal_large: "\<not> n < 10 \<Longrightarrow> decimal n = decimal (n div 10) @ [digit_char (n mod 10)]"
  by (subst decimal.simps) simp

lemma decimal_props:
  "decimal n \<noteq> [] \<and> list_all is_digit (decimal n) \<and> dec_val 0 (decimal n) = n \<and>
   (hd (decimal n) = CHR ''0'') = (n = 0)"
proof (induction n rule: decimal.induct)
  case (1 n)
  show ?case
  proof (cases "n < 10")
    case True
    then show ?thesis using digit_char_props[OF True] by (simp add: decimal_small)
  next
    case False
    have m: "n mod 10 < 10" by simp
    have nz: "n div 10 \<noteq> 0" using False by simp
    from "1.IH"[OF False] have IH: "decimal (n div 10) \<noteq> []" "list_all is_digit (decimal (n div 10))"
      "dec_val 0 (decimal (n div 10)) = n div 10" "hd (decimal (n div 10)) \<noteq> CHR ''0''"
      using nz by simp_all
    show ?thesis
      using IH digit_char_props[OF m] False by (simp add: decimal_large)
  qed
qed

lemma dec_val_pos:
  assumes "ds \<noteq> []" "list_all is_digit ds" "hd ds \<noteq> CHR ''0''"
  shows "0 < dec_val 0 ds"
proof -
  obtain c cs where ds: "ds = c # cs" using assms(1) by (cases ds) auto
  have "(of_char c :: nat) \<noteq> of_char CHR ''0''" using assms(3) ds by (simp only: of_char_eq_iff list.sel not_False_eq_True)
  then have "0 < digit_val c" using assms(2) ds by (auto simp: is_digit_def in_range_def digit_val_def)
  also have "digit_val c \<le> dec_val (digit_val c) cs" by (rule dec_val_ge)
  finally show ?thesis by (simp add: ds)
qed

lemma decimal_dec_val:
  "ds \<noteq> [] \<Longrightarrow> list_all is_digit ds \<Longrightarrow> hd ds \<noteq> CHR ''0'' \<Longrightarrow> decimal (dec_val 0 ds) = ds"
proof (induction ds rule: rev_induct)
  case Nil
  then show ?case by simp
next
  case (snoc c xs)
  have c: "is_digit c" using snoc.prems(2) by simp
  show ?case
  proof (cases "xs = []")
    case True
    then show ?thesis using digit_val_lt[OF c] digit_char_digit_val[OF c] by (simp add: decimal_small)
  next
    case False
    then have hd: "hd xs \<noteq> CHR ''0''" using snoc.prems(3) by simp
    have xs: "list_all is_digit xs" using snoc.prems(2) by simp
    have IH: "decimal (dec_val 0 xs) = xs" by (rule snoc.IH[OF False xs hd])
    have pos: "0 < dec_val 0 xs" by (rule dec_val_pos[OF False xs hd])
    have big: "\<not> dec_val 0 xs * 10 + digit_val c < 10" using pos by simp
    have dv: "(dec_val 0 xs * 10 + digit_val c) div 10 = dec_val 0 xs"
      "(dec_val 0 xs * 10 + digit_val c) mod 10 = digit_val c"
      using digit_val_lt[OF c] by simp_all
    show ?thesis using IH digit_char_digit_val[OF c] digit_val_lt[OF c]
      by (simp add: decimal_large[OF big] dv)
  qed
qed

lemma decimal_eq_iff:
  assumes "list_all is_digit ds" "ds \<noteq> []" "dec_val 0 ds \<noteq> 0"
  shows "decimal (dec_val 0 ds) = ds \<longleftrightarrow> hd ds \<noteq> CHR ''0''"
proof
  assume "decimal (dec_val 0 ds) = ds"
  then show "hd ds \<noteq> CHR ''0''" using decimal_props[of "dec_val 0 ds"] assms(3) by simp
next
  assume "hd ds \<noteq> CHR ''0''"
  then show "decimal (dec_val 0 ds) = ds" using assms decimal_dec_val by simp
qed

lemma ParseUint_loop_range: "ParseUint_loop M n cs = (r, Some ErrRange) \<Longrightarrow> r = M"
  by (induction cs arbitrary: n) (auto split: if_splits)

lemma ParseUint_range: "ParseUint s b = (r, Some ErrRange) \<Longrightarrow> r = 2 ^ b - 1"
  using ParseUint_loop_range by (auto simp: ParseUint_def split: if_splits)

lemma ParseInt_64_success:
  assumes "ParseInt s 64 = (v, None)"
    and ds: "ds = (if hd s = CHR ''+'' \<or> hd s = CHR ''-'' then tl s else s)"
  shows "s \<noteq> []" "ds \<noteq> []" "list_all is_digit ds"
    "hd s = CHR ''-'' \<Longrightarrow> dec_val 0 ds \<le> 2 ^ 63 \<and> v = - word_of_nat (dec_val 0 ds)"
    "hd s \<noteq> CHR ''-'' \<Longrightarrow> dec_val 0 ds < 2 ^ 63 \<and> v = word_of_nat (dec_val 0 ds)"
proof -
  show ne: "s \<noteq> []" using assms(1) by (auto simp: ParseInt_def)
  obtain un e where pu: "ParseUint ds 64 = (un, e)" by (cases "ParseUint ds 64") auto
  have e: "e = None"
  proof (cases e)
    case None
    then show ?thesis .
  next
    case (Some x)
    show ?thesis
    proof (cases x)
      case ErrSyntax
      then show ?thesis using assms(1) ne pu Some by (simp add: ParseInt_def Let_def ds[symmetric])
    next
      case ErrRange
      then have "un = 2 ^ 64 - 1" using ParseUint_range[of ds 64 un] pu Some by simp
      then show ?thesis using assms(1) ne pu Some ErrRange
        by (simp add: ParseInt_def Let_def ds[symmetric] split: if_splits)
    qed
  qed
  from pu e show d: "ds \<noteq> []" "list_all is_digit ds"
    using ParseUint_success_iff[of "2 ^ 64 - 1" 64 ds un] by simp_all
  from pu e have un: "un = dec_val 0 ds"
    using ParseUint_success_iff[of "2 ^ 64 - 1" 64 ds un] by simp
  have main: "(if hd s \<noteq> CHR ''-'' \<and> 2 ^ 63 \<le> un
       then (word_of_nat (2 ^ 63 - 1), Some (NumError ''ParseInt'' s ErrRange))
       else if hd s = CHR ''-'' \<and> 2 ^ 63 < un
         then (- word_of_nat (2 ^ 63), Some (NumError ''ParseInt'' s ErrRange))
         else (if hd s = CHR ''-'' then - word_of_nat un else word_of_nat un, None)) = (v :: int64, None)"
    using assms(1) ne pu e by (auto simp add: ParseInt_def Let_def ds[symmetric] split: if_splits)
  show "hd s = CHR ''-'' \<Longrightarrow> dec_val 0 ds \<le> 2 ^ 63 \<and> v = - word_of_nat (dec_val 0 ds)"
    using main un by (auto split: if_splits)
  show "hd s \<noteq> CHR ''-'' \<Longrightarrow> dec_val 0 ds < 2 ^ 63 \<and> v = word_of_nat (dec_val 0 ds)"
    using main un by (auto split: if_splits)
qed

lemma sint_of_nat_small: "n < 2 ^ 63 \<Longrightarrow> sint (word_of_nat n :: int64) = int n"
  by (simp add: signed_of_nat signed_take_bit_int_eq_self)

lemma sint_neg_of_nat: "0 < n \<Longrightarrow> n \<le> 2 ^ 63 \<Longrightarrow> sint (- word_of_nat n :: int64) = - int n"
proof -
  assume a: "0 < n" "n \<le> 2 ^ 63"
  have "(- word_of_nat n :: int64) = word_of_int (- int n)" by simp
  then have "sint (- word_of_nat n :: int64) = signed_take_bit 63 (- int n)"
    by (simp only: signed_of_int) simp
  also have "\<dots> = - int n" using a by (intro signed_take_bit_int_eq_self) auto
  finally show ?thesis .
qed

lemma Itoa_of_nat: "n < 2 ^ 63 \<Longrightarrow> Itoa (word_of_nat n) = decimal n"
  by (simp add: Itoa_def word_sless_alt sint_of_nat_small)

lemma Itoa_neg_of_nat: "0 < n \<Longrightarrow> n \<le> 2 ^ 63 \<Longrightarrow> Itoa (- word_of_nat n) = CHR ''-'' # decimal n"
  by (simp add: Itoa_def word_sless_alt sint_neg_of_nat)

lemma of_nat_eq_0_small: "n < 2 ^ 64 \<Longrightarrow> (word_of_nat n :: int64) = 0 \<longleftrightarrow> n = 0"
  using dvd_imp_le[of "2 ^ 64" n] by (auto simp: word_of_nat_eq_0_iff)

lemma ParseInt_Itoa_roundtrip:
  assumes "ParseInt s 64 = (v, None)" "v \<noteq> 0"
  shows "Itoa v = s \<longleftrightarrow> canonical_decimal s"
proof -
  define ds where "ds = (if hd s = CHR ''+'' \<or> hd s = CHR ''-'' then tl s else s)"
  note p = ParseInt_64_success[OF assms(1) ds_def]
  have ne: "s \<noteq> []" and d: "ds \<noteq> []" "list_all is_digit ds" using p(1,2,3) .
  show ?thesis
  proof (cases "hd s = CHR ''-''")
    case True
    then have s: "s = CHR ''-'' # ds" using ne by (cases s) (auto simp: ds_def)
    from p(4)[OF True] have val: "dec_val 0 ds \<le> 2 ^ 63" "v = - word_of_nat (dec_val 0 ds)" by simp_all
    have nz: "dec_val 0 ds \<noteq> 0"
    proof
      assume "dec_val 0 ds = 0"
      then have "v = 0" using val(2) by simp
      with assms(2) show False by simp
    qed
    have "Itoa v = CHR ''-'' # decimal (dec_val 0 ds)" using val nz by (simp add: Itoa_neg_of_nat)
    then show ?thesis using decimal_eq_iff[OF d(2,1) nz] d by (simp add: s canonical_decimal_def)
  next
    case False
    from p(5)[OF False] have val: "dec_val 0 ds < 2 ^ 63" "v = word_of_nat (dec_val 0 ds)" by simp_all
    have nz: "dec_val 0 ds \<noteq> 0"
    proof
      assume "dec_val 0 ds = 0"
      then have "v = 0" using val(2) by simp
      with assms(2) show False by simp
    qed
    have iv: "Itoa v = decimal (dec_val 0 ds)" using val by (simp add: Itoa_of_nat)
    show ?thesis
    proof (cases "hd s = CHR ''+''")
      case True
      then have s: "s = CHR ''+'' # ds" using ne by (cases s) (auto simp: ds_def)
      have "hd (decimal (dec_val 0 ds)) \<noteq> CHR ''+''"
        using decimal_props[of "dec_val 0 ds"] digit_not_sep[of "hd (decimal (dec_val 0 ds))"]
        by (cases "decimal (dec_val 0 ds)") auto
      then have "Itoa v \<noteq> s" using iv s by auto
      moreover have "\<not> canonical_decimal s" using s digit_not_sep[of "CHR ''+''"]
        by (auto simp: canonical_decimal_def)
      ultimately show ?thesis by simp
    next
      case F2: False
      then have s: "s = ds" using False by (simp add: ds_def)
      show ?thesis using decimal_eq_iff[OF d(2,1) nz] iv False ne d
        by (simp add: s[symmetric] canonical_decimal_def)
    qed
  qed
qed

lemma word_of_nat_sint_nonneg: "0 \<le> sint (v :: int64) \<Longrightarrow> word_of_nat (nat (sint v)) = v"
  using word_of_int_nat[of "sint v", where 'a = 64] by simp

lemma word_of_nat_sint_neg: "sint (v :: int64) < 0 \<Longrightarrow> - word_of_nat (nat (- sint v)) = v"
  using word_of_int_nat[of "- sint v", where 'a = 64] by simp

lemma ParseUint_decimal: "n < 2 ^ 64 \<Longrightarrow> ParseUint (decimal n) 64 = (n, None)"
  using ParseUint_success_iff[of "2 ^ 64 - 1" 64 "decimal n" n] decimal_props[of n] by simp

lemma ParseInt_Itoa: "ParseInt (Itoa v) 64 = (v, None)"
proof (cases "v <s 0")
  case False
  then have nn: "0 \<le> sint v" by (simp add: word_sless_alt)
  define n where "n = nat (sint v)"
  have n: "n < 2 ^ 63" using sint_lt[of v] nn by (simp add: n_def)
  have it: "Itoa v = decimal n" using False by (simp add: Itoa_def n_def)
  have hd: "hd (decimal n) \<noteq> CHR ''-'' \<and> hd (decimal n) \<noteq> CHR ''+''"
    using decimal_props[of n] digit_not_sep[of "hd (decimal n)"] by (cases "decimal n") auto
  have pu: "ParseUint (decimal n) 64 = (n, None)" using n by (intro ParseUint_decimal) simp
  have "ParseInt (decimal n) 64 = (word_of_nat n, None)"
    using hd pu n decimal_props[of n] by (simp add: ParseInt_def Let_def)
  then show ?thesis using it word_of_nat_sint_nonneg[OF nn] by (simp add: n_def)
next
  case True
  then have neg: "sint v < 0" by (simp add: word_sless_alt)
  define n where "n = nat (- sint v)"
  have n: "0 < n" "n \<le> 2 ^ 63" using sint_ge[of v] neg by (simp_all add: n_def)
  have it: "Itoa v = CHR ''-'' # decimal n" using True by (simp add: Itoa_def n_def)
  have pu: "ParseUint (decimal n) 64 = (n, None)" using n by (intro ParseUint_decimal) simp
  have "ParseInt (CHR ''-'' # decimal n) 64 = (- word_of_nat n, None)"
    using pu n by (simp add: ParseInt_def Let_def)
  then show ?thesis using it word_of_nat_sint_neg[OF neg] by (simp add: n_def)
qed

section \<open>Claim about decoding and encoding a Task\<close>

text \<open>
  Claim C3, as the code has it. Let \<open>UnmarshalXML\<close> accept the text \<open>s\<close> and give the
  Task \<open>t\<close>. If \<open>s\<close> contains a colon, \<open>MarshalXML\<close> emits \<open>s\<close> itself. Otherwise, a
  decoded id of zero is emitted as absent, and a non-zero id is emitted as its decimal
  form \<open>Itoa\<close>, which decodes to the same id again and is the original text exactly
  when that text is in canonical form: no plus sign and no leading zero.
\<close>

theorem Task_decode_encode:
  assumes "UnmarshalXML t0 s = (t, None)"
  shows "(Contains s '':'' \<longrightarrow> MarshalXML t = (Some s, None)) \<and>
         (\<not> Contains s '':'' \<and> TaskID t = 0 \<longrightarrow> MarshalXML t = (None, None)) \<and>
         (\<not> Contains s '':'' \<and> TaskID t \<noteq> 0 \<longrightarrow>
            MarshalXML t = (Some (Itoa (TaskID t)), None) \<and>
            ParseInt s 64 = (TaskID t, None) \<and>
            ParseInt (Itoa (TaskID t)) 64 = (TaskID t, None) \<and>
            (Itoa (TaskID t) = s \<longleftrightarrow> canonical_decimal s))"
proof (cases "Contains s '':''")
  case True
  then have "t = t0\<lparr>Source := s\<rparr>" using assms by (simp add: UnmarshalXML_def)
  then show ?thesis using True by (simp add: MarshalXML_def)
next
  case False
  obtain v e where p: "ParseInt s 64 = (v, e)" by (cases "ParseInt s 64") auto
  have e: "e = None" using assms False p by (cases e) (simp_all add: UnmarshalXML_def)
  have t: "t = t0\<lparr>Source := s, TaskID := v\<rparr>" using assms False p e by (simp add: UnmarshalXML_def)
  have src: "Source t = s" "TaskID t = v" using t by simp_all
  show ?thesis
    using False p e src ParseInt_Itoa[of v] ParseInt_Itoa_roundtrip[of s v]
    by (simp add: MarshalXML_def)
qed

theorem Task_decode_encode_witness:
  "UnmarshalXML \<lparr>Source = [], TaskID = 0\<rparr> ''42'' = (\<lparr>Source = ''42'', TaskID = 42\<rparr>, None) \<and>
   MarshalXML \<lparr>Source = ''42'', TaskID = 42\<rparr> = (Some ''42'', None) \<and>
   canonical_decimal ''42'' \<and>
   UnmarshalXML \<lparr>Source = [], TaskID = 0\<rparr> ''40-55:5'' = (\<lparr>Source = ''40-55:5'', TaskID = 0\<rparr>, None) \<and>
   MarshalXML \<lparr>Source = ''40-55:5'', TaskID = 0\<rparr> = (Some ''40-55:5'', None)"
proof -
  have 1: "UnmarshalXML \<lparr>Source = [], TaskID = 0\<rparr> ''42'' = (\<lparr>Source = ''42'', TaskID = 42\<rparr>, None)"
    by (simp add: UnmarshalXML_def ParseInt_def ParseUint_def is_digit_def in_range_def digit_val_def)
  have 2: "UnmarshalXML \<lparr>Source = [], TaskID = 0\<rparr> ''40-55:5'' = (\<lparr>Source = ''40-55:5'', TaskID = 0\<rparr>, None)"
    by (simp add: UnmarshalXML_def)
  have 3: "Itoa 42 = ''42''" by (simp add: Itoa_def decimal.simps digit_char_def word_sless_alt)
  from Task_decode_encode[OF 1] Task_decode_encode[OF 2] 1 2 3 show ?thesis by simp
qed

text \<open>
  The claim as stated fails on text with a leading zero: \<open>"007"\<close> is accepted by the
  decoder (task id 7) and encoded as \<open>"7"\<close>.
\<close>

theorem Task_decode_encode_leading_zeros:
  "UnmarshalXML \<lparr>Source = [], TaskID = 0\<rparr> ''007'' = (\<lparr>Source = ''007'', TaskID = 7\<rparr>, None) \<and>
   MarshalXML \<lparr>Source = ''007'', TaskID = 7\<rparr> = (Some ''7'', None)"
  by (simp add: UnmarshalXML_def MarshalXML_def ParseInt_def ParseUint_def is_digit_def in_range_def
      digit_val_def Itoa_def decimal.simps digit_char_def word_sless_alt)


section \<open>Properties of Filter\<close>

lemma Filter_loop_acc: "Filter_loop f jl acc = acc @ filter f jl"
  by (induction jl arbitrary: acc) simp_all

lemma Filter_filter: "Filter jl f = filter f jl"
  by (simp add: Filter_def Filter_loop_acc)

text \<open>
  Claim C9. Filter returns exactly the jobs of the receiver that satisfy the predicate, in
  their original relative order (it is the list filter of the receiver, which itself is
  left as it was: the model is a pure function of it), and filtering by one predicate
  and then by another is the same as filtering once by their conjunction.
\<close>

theorem Filter_exact_and_chains:
  "Filter jl f = filter f jl \<and> Filter (Filter jl f) g = Filter jl (\<lambda>j. f j \<and> g j)"
  by (simp add: Filter_filter conj_commute)

end
